theory Spec2Isabelle
  imports Complex_Main "HOL-Library.Word"
begin

section \<open>The batched register reader of huawei\_solar.py\<close>

text \<open>
  The module reads named registers of an inverter over Modbus/TCP. The model follows
  \<^verbatim>\<open>AsyncHuaweiSolar\<close>: Python integers are \<open>int\<close>, durations are rationals in
  seconds, the words of a response are \<open>16 word\<close>, the payload of the decoder is a list of
  bytes. Every effect of a call (taking and giving back the communication lock, a wire read,
  a sleep) is appended to a trace, and every exception is a value of \<open>error\<close>.
\<close>

subsection \<open>Data\<close>

datatype value_error =
    NoNames
  | UnrecognizedNames
  | NotIncreasing int int int
  | GapTooLarge

datatype read_error =
    GaveUp int nat
  | CouldNotRead
  | ErrorResponse int int int

datatype error =
    ValueError value_error
  | ConnectionException
  | ReadException read_error
  | IndexError

text \<open>What \<^verbatim>\<open>read_holding_registers\<close> hands back: the registers, or an exception response
  with its code.\<close>

datatype response =
    ReadHoldingRegistersResponse "16 word list"
  | ExceptionResponse int

text \<open>What one transport call does: it returns a response, raises pymodbus'
  \<^verbatim>\<open>ConnectionException\<close>, or raises \<^verbatim>\<open>asyncio.TimeoutError\<close>.\<close>

datatype outcome =
    Reply response
  | ModbusConnectionException
  | TimeoutError

text \<open>The observable effects. \<open>ReadHoldingRegisters address count unit timeout\<close> is one wire
  read, \<open>Sleep d\<close> an \<^verbatim>\<open>asyncio.sleep(d)\<close> that has returned.\<close>

datatype event =
    Acquire
  | Release
  | ReadHoldingRegisters int int int int
  | Sleep rat

type_synonym trace = "event list"

text \<open>The Modbus client is outside the module. It is a parameter: whether it reports itself
  connected, and what a wire read does, are arbitrary functions of everything that happened
  so far (for \<open>reply\<close>, the wire read just issued is the last event).\<close>

record client =
  connected :: "trace \<Rightarrow> bool"
  reply :: "trace \<Rightarrow> outcome"

text \<open>The fields of \<^verbatim>\<open>self\<close> that the reader uses; \<open>time_zone\<close> and \<open>battery_type\<close> are
  the context that a register's decode function may consult.\<close>

record 'v AsyncHuaweiSolar =
  slave :: int
  timeout :: int
  cooldown_time :: rat
  time_zone :: "'v option"
  battery_type :: "'v option"

record BinaryPayloadDecoder =
  payload :: "8 word list"
  pointer :: int

text \<open>The \<^verbatim>\<open>unit\<close> attribute of a register definition, as \<^verbatim>\<open>_decode_response\<close> tells the
  cases apart: no attribute, a callable, a dict, or a plain unit.\<close>

datatype unit_attr = NoUnit | CallableUnit | DictUnit | PlainUnit string

text \<open>A register definition. The table \<^verbatim>\<open>REGISTERS\<close> and the decode functions live in
  another module; both are parameters here. A decode function reads from the decoder with
  the session as context and returns the value and the advanced decoder.\<close>

record 'v RegisterDefinition =
  register :: int
  reg_length :: int
  decode :: "BinaryPayloadDecoder \<Rightarrow> 'v AsyncHuaweiSolar \<Rightarrow> 'v \<times> BinaryPayloadDecoder"
  reg_unit :: unit_attr

datatype 'v Result = Result (result_value: 'v) (result_unit: "string option")

datatype attempt = Returned response | Raised error | TimedOut

definition DEFAULT_SLAVE :: int where "DEFAULT_SLAVE = 0"
definition DEFAULT_TIMEOUT :: int where "DEFAULT_TIMEOUT = 5"
definition DEFAULT_WAIT :: rat where "DEFAULT_WAIT = 2"
definition DEFAULT_COOLDOWN_TIME :: rat where "DEFAULT_COOLDOWN_TIME = 1 / 100"

subsection \<open>The payload decoder\<close>

text \<open>\<^verbatim>\<open>BinaryPayloadDecoder.fromRegisters\<close> with big-endian byte and word order: every
  register gives its high byte, then its low byte; the read pointer starts at 0.\<close>

definition fromRegisters :: "16 word list \<Rightarrow> BinaryPayloadDecoder" where
  "fromRegisters registers =
     \<lparr>payload = concat (map (\<lambda>w. [ucast (drop_bit 8 w), ucast w]) registers), pointer = 0\<rparr>"

definition skip_bytes :: "BinaryPayloadDecoder \<Rightarrow> int \<Rightarrow> BinaryPayloadDecoder" where
  "skip_bytes decoder nbytes = decoder\<lparr>pointer := pointer decoder + nbytes\<rparr>"

subsection \<open>\<^verbatim>\<open>_decode_response\<close>\<close>

definition decode_response ::
  "'v AsyncHuaweiSolar \<Rightarrow> 'v RegisterDefinition \<Rightarrow> BinaryPayloadDecoder
     \<Rightarrow> 'v Result \<times> BinaryPayloadDecoder" where
  "decode_response self reg decoder =
     (case decode reg decoder self of
        (result, decoder') \<Rightarrow>
          (case reg_unit reg of
             NoUnit \<Rightarrow> (Result result None, decoder')
           | CallableUnit \<Rightarrow> (Result result None, decoder')
           | DictUnit \<Rightarrow> (Result result None, decoder')
           | PlainUnit u \<Rightarrow> (Result result (Some u), decoder')))"

subsection \<open>\<^verbatim>\<open>_read_registers\<close>\<close>

text \<open>\<^verbatim>\<open>slave or self.slave\<close>: \<^verbatim>\<open>None\<close> and \<^verbatim>\<open>0\<close> are both falsy.\<close>

definition slave_or :: "int option \<Rightarrow> int \<Rightarrow> int" where
  "slave_or slave_arg own =
     (case slave_arg of None \<Rightarrow> own | Some s \<Rightarrow> if s = 0 then own else s)"

text \<open>The body of \<^verbatim>\<open>_do_read\<close>, one attempt.\<close>

definition do_read ::
  "client \<Rightarrow> 'v AsyncHuaweiSolar \<Rightarrow> int \<Rightarrow> int \<Rightarrow> int option \<Rightarrow> trace \<Rightarrow> attempt \<times> trace" where
  "do_read cl self reg len slave_arg w =
     (if \<not> connected cl w then (Raised ConnectionException, w)
      else
        let w1 = w @ [ReadHoldingRegisters reg len (slave_or slave_arg (slave self)) (timeout self)]
        in case reply cl w1 of
             Reply resp \<Rightarrow> (Returned resp, w1)
           | ModbusConnectionException \<Rightarrow> (Raised (ReadException CouldNotRead), w1)
           | TimeoutError \<Rightarrow> (TimedOut, w1))"

text \<open>\<^verbatim>\<open>backoff_giveup\<close> raises the read exception that reports the register and the number
  of tries.\<close>

definition backoff_giveup :: "int \<Rightarrow> nat \<Rightarrow> error" where
  "backoff_giveup reg tries = ReadException (GaveUp reg tries)"

text \<open>The decorator \<^verbatim>\<open>backoff.on_exception(backoff.constant, asyncio.TimeoutError,
  interval=..., max_tries=..., jitter=None, on_giveup=...)\<close> around a target: the retry loop
  of the backoff library. It counts the tries from 1; only the time-out is caught, any other
  exception of the target leaves the loop; at \<open>max_tries\<close> tries the give-up handler runs (it
  raises); otherwise the loop sleeps for the constant interval, without jitter, and calls
  the target again. \<open>tries\<close> is the number of tries made so far. The library is not part
  of the module; its loop tests \<^verbatim>\<open>tries == max_tries\<close>, which for a count that starts at 0
  is the test \<open>max_tries \<le> tries + 1\<close> written here, and this form ends for every start.\<close>

function on_exception ::
  "rat \<Rightarrow> nat \<Rightarrow> (nat \<Rightarrow> error) \<Rightarrow> (trace \<Rightarrow> attempt \<times> trace) \<Rightarrow> nat \<Rightarrow> trace
     \<Rightarrow> (error + response) \<times> trace" where
  "on_exception interval max_tries on_giveup target tries w =
     (case target w of
        (Returned ret, w1) \<Rightarrow> (Inr ret, w1)
      | (Raised e, w1) \<Rightarrow> (Inl e, w1)
      | (TimedOut, w1) \<Rightarrow>
          if max_tries \<le> tries + 1 then (Inl (on_giveup (tries + 1)), w1)
          else on_exception interval max_tries on_giveup target (tries + 1) (w1 @ [Sleep interval]))"
  by pat_completeness auto
termination
  by (relation "measure (\<lambda>(interval, max_tries, on_giveup, target, tries, w). max_tries - tries)") auto

text \<open>\<^verbatim>\<open>_read_registers\<close>: inside \<^verbatim>\<open>async with self._communication_lock\<close>, the decorated read
  and then the cool-down sleep. An exception of the read leaves the block at once: the lock
  is given back by the context manager, and the sleep is skipped.\<close>

definition read_registers ::
  "client \<Rightarrow> 'v AsyncHuaweiSolar \<Rightarrow> int \<Rightarrow> int \<Rightarrow> int option \<Rightarrow> trace
     \<Rightarrow> (error + response) \<times> trace" where
  "read_registers cl self reg len slave_arg w =
     (case on_exception DEFAULT_WAIT 5 (backoff_giveup reg)
             (do_read cl self reg len slave_arg) 0 (w @ [Acquire]) of
        (Inl e, w2) \<Rightarrow> (Inl e, w2 @ [Release])
      | (Inr result, w2) \<Rightarrow> (Inr result, w2 @ [Sleep (cooldown_time self), Release]))"

subsection \<open>\<^verbatim>\<open>get_multiple\<close> and \<^verbatim>\<open>get\<close>\<close>

text \<open>The validation loop \<^verbatim>\<open>for idx in range(1, len(names))\<close>, from index \<open>idx\<close> on. It
  yields the exception it raises, or \<open>None\<close> when it runs to its end.\<close>

function check_registers :: "'v RegisterDefinition list \<Rightarrow> nat \<Rightarrow> error option" where
  "check_registers registers idx =
     (if idx < length registers then
        if register (registers ! (idx - 1)) + reg_length (registers ! (idx - 1))
             > register (registers ! idx)
        then Some (ValueError (NotIncreasing (register (registers ! (idx - 1)))
                                 (reg_length (registers ! (idx - 1))) (register (registers ! idx))))
        else
          let register_distance =
                register (registers ! (idx - 1)) + reg_length (registers ! (idx - 1))
                  - register (registers ! idx)
          in if register_distance > 64 then Some (ValueError GapTooLarge)
             else check_registers registers (idx + 1)
      else None)"
  by pat_completeness auto
termination
  by (relation "measure (\<lambda>(registers, idx). length registers - idx)") auto

text \<open>The decoding loop \<^verbatim>\<open>for idx in range(1, len(registers))\<close>, from index \<open>idx\<close> on, with
  the decoder and the results gathered so far.\<close>

function decode_loop ::
  "'v AsyncHuaweiSolar \<Rightarrow> 'v RegisterDefinition list \<Rightarrow> nat \<Rightarrow> BinaryPayloadDecoder
     \<Rightarrow> 'v Result list \<Rightarrow> 'v Result list" where
  "decode_loop self registers idx decoder result =
     (if idx < length registers then
        let skip_registers =
              register (registers ! idx)
                - (register (registers ! (idx - 1)) + reg_length (registers ! (idx - 1)));
            decoder1 = skip_bytes decoder (skip_registers * 2)
        in case decode_response self (registers ! idx) decoder1 of
             (r, decoder2) \<Rightarrow> decode_loop self registers (idx + 1) decoder2 (result @ [r])
      else result)"
  by pat_completeness auto
termination
  by (relation "measure (\<lambda>(self, registers, idx, decoder, result). length registers - idx)") auto

definition get_multiple ::
  "(string \<Rightarrow> 'v RegisterDefinition option) \<Rightarrow> client \<Rightarrow> 'v AsyncHuaweiSolar
     \<Rightarrow> string list \<Rightarrow> int option \<Rightarrow> trace \<Rightarrow> (error + 'v Result list) \<times> trace" where
  "get_multiple REGISTERS cl self names slave_arg w =
     (if length names = 0 then (Inl (ValueError NoNames), w)
      else
        let looked_up = map REGISTERS names
        in if list_ex Option.is_none looked_up then (Inl (ValueError UnrecognizedNames), w)
           else
             let registers = map the looked_up
             in case check_registers registers 1 of
                  Some e \<Rightarrow> (Inl e, w)
                | None \<Rightarrow>
                    let total_length =
                          register (last registers) + reg_length (last registers)
                            - register (registers ! 0)
                    in (case read_registers cl self (register (registers ! 0)) total_length
                               slave_arg w of
                          (Inl e, w') \<Rightarrow> (Inl e, w')
                        | (Inr (ExceptionResponse code), w') \<Rightarrow>
                            (Inl (ReadException
                                   (ErrorResponse (register (registers ! 0)) total_length code)), w')
                        | (Inr (ReadHoldingRegistersResponse words), w') \<Rightarrow>
                            (case decode_response self (registers ! 0) (fromRegisters words) of
                               (r, decoder) \<Rightarrow>
                                 (Inr (decode_loop self registers 1 decoder [r]), w'))))"

definition get ::
  "(string \<Rightarrow> 'v RegisterDefinition option) \<Rightarrow> client \<Rightarrow> 'v AsyncHuaweiSolar
     \<Rightarrow> string \<Rightarrow> int option \<Rightarrow> trace \<Rightarrow> (error + 'v Result) \<times> trace" where
  "get REGISTERS cl self name slave_arg w =
     (case get_multiple REGISTERS cl self [name] slave_arg w of
        (Inl e, w') \<Rightarrow> (Inl e, w')
      | (Inr results, w') \<Rightarrow>
          (case results of [] \<Rightarrow> (Inl IndexError, w') | r # _ \<Rightarrow> (Inr r, w')))"

subsection \<open>The checks of \<^verbatim>\<open>get_multiple\<close>, named\<close>

text \<open>The register definitions that the names resolve to.\<close>

definition resolved ::
  "(string \<Rightarrow> 'v RegisterDefinition option) \<Rightarrow> string list \<Rightarrow> 'v RegisterDefinition list" where
  "resolved REGISTERS names = map the (map REGISTERS names)"

text \<open>The first test of the validation loop at index \<open>i\<close>: the definition before ends
  behind the start of this one.\<close>

definition overlaps :: "'v RegisterDefinition list \<Rightarrow> nat \<Rightarrow> bool" where
  "overlaps registers i \<longleftrightarrow>
     register (registers ! (i - 1)) + reg_length (registers ! (i - 1)) > register (registers ! i)"

text \<open>A request passes the three checks of \<^verbatim>\<open>get_multiple\<close>: there is a name, every name
  is in the table, and the validation loop raises nothing.\<close>

definition accepted :: "(string \<Rightarrow> 'v RegisterDefinition option) \<Rightarrow> string list \<Rightarrow> bool" where
  "accepted REGISTERS names \<longleftrightarrow>
     names \<noteq> [] \<and> \<not> list_ex Option.is_none (map REGISTERS names)
       \<and> check_registers (resolved REGISTERS names) 1 = None"

text \<open>The range that \<^verbatim>\<open>get_multiple\<close> asks \<^verbatim>\<open>_read_registers\<close> for.\<close>

definition start_register :: "'v RegisterDefinition list \<Rightarrow> int" where
  "start_register registers = register (registers ! 0)"

definition total_length :: "'v RegisterDefinition list \<Rightarrow> int" where
  "total_length registers =
     register (last registers) + reg_length (last registers) - register (registers ! 0)"

text \<open>The wire read that \<^verbatim>\<open>_do_read\<close> issues.\<close>

definition wire_read :: "'v AsyncHuaweiSolar \<Rightarrow> int \<Rightarrow> int \<Rightarrow> int option \<Rightarrow> event" where
  "wire_read self reg len slave_arg =
     ReadHoldingRegisters reg len (slave_or slave_arg (slave self)) (timeout self)"

subsection \<open>The decoder as the specification words it\<close>

text \<open>The walk of the specification: a cursor over the buffer; before field \<open>i\<close> it skips
  \<open>(def[i].offset - def[i-1].offset - def[i-1].length) * 2\<close> bytes, nothing before the first
  field, then the field's decode function runs on the cursor. \<open>prev\<close> is the definition of
  the field before.\<close>

fun spec_walk ::
  "'v AsyncHuaweiSolar \<Rightarrow> 'v RegisterDefinition option \<Rightarrow> 'v RegisterDefinition list
     \<Rightarrow> BinaryPayloadDecoder \<Rightarrow> 'v Result list" where
  "spec_walk self prev [] cursor = []"
| "spec_walk self prev (d # ds) cursor =
     (let skip = (case prev of None \<Rightarrow> 0
                  | Some p \<Rightarrow> (register d - register p - reg_length p) * 2);
          cursor1 = cursor\<lparr>pointer := pointer cursor + skip\<rparr>
      in case decode d cursor1 self of
           (v, cursor2) \<Rightarrow>
             Result v (case reg_unit d of PlainUnit u \<Rightarrow> Some u | _ \<Rightarrow> None)
               # spec_walk self (Some d) ds cursor2)"

subsection \<open>Reading a trace\<close>

fun is_read :: "event \<Rightarrow> bool" where
  "is_read (ReadHoldingRegisters a c u t) = True"
| "is_read e = False"

text \<open>A wire read carries the unit \<open>u\<close>; any other event passes.\<close>

fun read_unit_is :: "int \<Rightarrow> event \<Rightarrow> bool" where
  "read_unit_is u (ReadHoldingRegisters a c u' t) = (u' = u)"
| "read_unit_is u e = True"

text \<open>The wire reads of a trace, in order.\<close>

definition wire_reads :: "trace \<Rightarrow> trace" where
  "wire_reads w = filter is_read w"

text \<open>The events of \<open>k\<close> attempts that timed out, each a wire read followed by the sleep of
  the retry loop.\<close>

definition backoff_rounds :: "nat \<Rightarrow> event \<Rightarrow> trace" where
  "backoff_rounds k r = concat (replicate k [r, Sleep DEFAULT_WAIT])"

text \<open>An attempt made at the history \<open>h\<close> times out: the client reports itself connected
  and the wire read \<open>r\<close> raises the time-out.\<close>

definition attempt_times_out :: "client \<Rightarrow> trace \<Rightarrow> event \<Rightarrow> bool" where
  "attempt_times_out cl h r \<longleftrightarrow> connected cl h \<and> reply cl (h @ [r]) = TimeoutError"

subsection \<open>A test bench\<close>

text \<open>\<^verbatim>\<open>BinaryPayloadDecoder.decode_string(size)\<close>: it advances the pointer by \<open>size\<close> and
  returns the bytes it passed (for a pointer that is not negative, as it is here).\<close>

definition decode_string ::
  "nat \<Rightarrow> BinaryPayloadDecoder \<Rightarrow> 'c \<Rightarrow> 8 word list \<times> BinaryPayloadDecoder" where
  "decode_string n decoder self =
     (take n (drop (nat (pointer decoder)) (payload decoder)),
      decoder\<lparr>pointer := pointer decoder + int n\<rparr>)"

text \<open>A session with the default settings, and the schema of the specification's scenario,
  \<open>A\<close> at offset 0 of length 1 and \<open>B\<close> at offset 1 of length 2, with a third register \<open>F\<close> far
  away at offset 100.\<close>

definition session0 :: "(8 word list) AsyncHuaweiSolar" where
  "session0 = \<lparr>slave = DEFAULT_SLAVE, timeout = DEFAULT_TIMEOUT,
               cooldown_time = DEFAULT_COOLDOWN_TIME, time_zone = None, battery_type = None\<rparr>"

definition session7 :: "(8 word list) AsyncHuaweiSolar" where
  "session7 = session0\<lparr>slave := 7\<rparr>"

definition reg_def :: "int \<Rightarrow> nat \<Rightarrow> unit_attr \<Rightarrow> (8 word list) RegisterDefinition" where
  "reg_def offset len u =
     \<lparr>register = offset, reg_length = int len, decode = decode_string (2 * len), reg_unit = u\<rparr>"

definition REGISTERS0 :: "string \<Rightarrow> (8 word list) RegisterDefinition option" where
  "REGISTERS0 name =
     (if name = ''A'' then Some (reg_def 0 1 (PlainUnit ''V''))
      else if name = ''B'' then Some (reg_def 1 2 NoUnit)
      else if name = ''F'' then Some (reg_def 100 1 DictUnit)
      else None)"

text \<open>Mock clients: connected ones with a fixed answer to every read, and one that is
  not connected.\<close>

definition client_words :: "16 word list \<Rightarrow> client" where
  "client_words ws = \<lparr>connected = (\<lambda>w. True), reply = (\<lambda>w. Reply (ReadHoldingRegistersResponse ws))\<rparr>"

definition client_fixed :: "outcome \<Rightarrow> client" where
  "client_fixed out = \<lparr>connected = (\<lambda>w. True), reply = (\<lambda>w. out)\<rparr>"

definition client_down :: client where
  "client_down = \<lparr>connected = (\<lambda>w. False), reply = (\<lambda>w. TimeoutError)\<rparr>"

text \<open>A connected mock client that answers the \<open>n\<close>-th wire read of the history with the
  \<open>n\<close>-th entry of a script, and times out once the script is used up.\<close>

definition client_script :: "outcome list \<Rightarrow> client" where
  "client_script script =
     \<lparr>connected = (\<lambda>w. True),
      reply = (\<lambda>w. let n = length (wire_reads w)
                   in if 0 < n \<and> n \<le> length script then script ! (n - 1) else TimeoutError)\<rparr>"

section \<open>Facts about the loops\<close>

text \<open>The defining equations of the three loops are unfolded by hand, one round at a time.\<close>

declare on_exception.simps [simp del]
declare check_registers.simps [simp del]
declare decode_loop.simps [simp del]


lemma do_read_cases:
  "do_read cl self reg len sl w =
     (if \<not> connected cl w then (Raised ConnectionException, w)
      else (case reply cl (w @ [wire_read self reg len sl]) of
             Reply resp \<Rightarrow> Returned resp
           | ModbusConnectionException \<Rightarrow> Raised (ReadException CouldNotRead)
           | TimeoutError \<Rightarrow> TimedOut, w @ [wire_read self reg len sl]))"
  by (simp add: do_read_def wire_read_def Let_def split: outcome.splits)

lemma is_read_wire_read [simp]: "is_read (wire_read self reg len sl)"
  by (simp add: wire_read_def)

lemma on_exception_trace:
  "\<exists>added. snd (on_exception iv mx g (do_read cl self reg len sl) tries w) = w @ added
      \<and> set added \<subseteq> {wire_read self reg len sl, Sleep iv}
      \<and> length (wire_reads added) \<le> max 1 (mx - tries)"
proof (induction iv mx g "do_read cl self reg len sl" tries w rule: on_exception.induct)
  case (1 iv mx g tries w)
  let ?R = "wire_read self reg len sl"
  show ?case
  proof (cases "connected cl w")
    case False
    then show ?thesis
      by (subst on_exception.simps) (simp add: do_read_cases wire_reads_def)
  next
    case True
    show ?thesis
    proof (cases "reply cl (w @ [?R])")
      case (Reply resp)
      with True have "snd (on_exception iv mx g (do_read cl self reg len sl) tries w) = w @ [?R]"
        by (subst on_exception.simps) (simp add: do_read_cases)
      then show ?thesis by (simp add: wire_reads_def)
    next
      case ModbusConnectionException
      with True have "snd (on_exception iv mx g (do_read cl self reg len sl) tries w) = w @ [?R]"
        by (subst on_exception.simps) (simp add: do_read_cases)
      then show ?thesis by (simp add: wire_reads_def)
    next
      case TimeoutError
      with True have dr: "do_read cl self reg len sl w = (TimedOut, w @ [?R])"
        by (simp add: do_read_cases)
      show ?thesis
      proof (cases "mx \<le> tries + 1")
        case True
        with dr have "snd (on_exception iv mx g (do_read cl self reg len sl) tries w) = w @ [?R]"
          by (subst on_exception.simps) simp
        then show ?thesis by (simp add: wire_reads_def)
      next
        case False
        from "1.hyps" [OF dr [symmetric] refl False]
        obtain added where a:
          "snd (on_exception iv mx g (do_read cl self reg len sl) (tries + 1)
                 ((w @ [?R]) @ [Sleep iv])) = ((w @ [?R]) @ [Sleep iv]) @ added"
          "set added \<subseteq> {?R, Sleep iv}"
          "length (wire_reads added) \<le> max 1 (mx - (tries + 1))"
          by blast
        from dr False have "on_exception iv mx g (do_read cl self reg len sl) tries w
            = on_exception iv mx g (do_read cl self reg len sl) (tries + 1) ((w @ [?R]) @ [Sleep iv])"
          by (subst on_exception.simps) simp
        with a(1) have "snd (on_exception iv mx g (do_read cl self reg len sl) tries w)
            = w @ (?R # Sleep iv # added)" by simp
        moreover have "set (?R # Sleep iv # added) \<subseteq> {?R, Sleep iv}" using a(2) by auto
        moreover have "length (wire_reads (?R # Sleep iv # added)) \<le> max 1 (mx - tries)"
          using a(3) False by (simp add: wire_reads_def)
        ultimately show ?thesis by blast
      qed
    qed
  qed
qed



lemma check_registers_unfold:
  "check_registers regs idx =
     (if idx < length regs then
        if overlaps regs idx
        then Some (ValueError (NotIncreasing (register (regs ! (idx - 1)))
                                 (reg_length (regs ! (idx - 1))) (register (regs ! idx))))
        else check_registers regs (idx + 1)
      else None)"
  by (subst check_registers.simps) (simp add: Let_def overlaps_def)

lemma check_registers_None_iff:
  "check_registers regs idx = None \<longleftrightarrow> (\<forall>i. idx \<le> i \<and> i < length regs \<longrightarrow> \<not> overlaps regs i)"
proof (induction regs idx rule: check_registers.induct)
  case (1 registers idx)
  show ?case
  proof (cases "idx < length registers \<and> \<not> overlaps registers idx")
    case True
    then have "check_registers registers idx = check_registers registers (idx + 1)"
      by (subst check_registers_unfold) simp
    moreover have "check_registers registers (idx + 1) = None \<longleftrightarrow>
        (\<forall>i. idx + 1 \<le> i \<and> i < length registers \<longrightarrow> \<not> overlaps registers i)"
    proof (rule "1.IH")
      show "idx < length registers" using True by simp
      show "\<not> register (registers ! (idx - 1)) + reg_length (registers ! (idx - 1))
                > register (registers ! idx)" using True by (simp add: overlaps_def)
      then show "\<not> 64 < register (registers ! (idx - 1)) + reg_length (registers ! (idx - 1))
                - register (registers ! idx)" by arith
    qed simp
    moreover have "(\<forall>i. idx + 1 \<le> i \<and> i < length registers \<longrightarrow> \<not> overlaps registers i)
        \<longleftrightarrow> (\<forall>i. idx \<le> i \<and> i < length registers \<longrightarrow> \<not> overlaps registers i)"
      using True by (metis Suc_eq_plus1 Suc_leI le_neq_implies_less le_SucI Suc_leD)
    ultimately show ?thesis by simp
  next
    case False
    then show ?thesis
      by (subst check_registers_unfold) auto
  qed
qed

lemma check_registers_ValueError:
  "check_registers regs idx = Some e \<Longrightarrow> \<exists>v. e = ValueError v \<and> v \<noteq> GapTooLarge"
proof (induction regs idx rule: check_registers.induct)
  case (1 registers idx)
  show ?case
  proof (cases "idx < length registers \<and> \<not> overlaps registers idx")
    case True
    then have eq: "check_registers registers idx = check_registers registers (idx + 1)"
      by (subst check_registers_unfold) simp
    show ?thesis
    proof (rule "1.IH")
      show "idx < length registers" using True by simp
      show "\<not> register (registers ! (idx - 1)) + reg_length (registers ! (idx - 1))
                > register (registers ! idx)" using True by (simp add: overlaps_def)
      then show "\<not> 64 < register (registers ! (idx - 1)) + reg_length (registers ! (idx - 1))
                - register (registers ! idx)" by arith
      show "check_registers registers (idx + 1) = Some e" using "1.prems" eq by simp
    qed simp
  next
    case False
    with "1.prems" show ?thesis
      by (subst (asm) check_registers_unfold) (auto split: if_splits)
  qed
qed


lemma on_exception_not_connected:
  "\<not> connected cl w \<Longrightarrow>
   on_exception iv mx g (do_read cl self reg len sl) tries w = (Inl ConnectionException, w)"
  by (subst on_exception.simps) (simp add: do_read_cases)

lemma on_exception_reply:
  "connected cl w \<Longrightarrow> reply cl (w @ [wire_read self reg len sl]) = Reply resp \<Longrightarrow>
   on_exception iv mx g (do_read cl self reg len sl) tries w
     = (Inr resp, w @ [wire_read self reg len sl])"
  by (subst on_exception.simps) (simp add: do_read_cases)

lemma on_exception_connection_lost:
  "connected cl w \<Longrightarrow> reply cl (w @ [wire_read self reg len sl]) = ModbusConnectionException \<Longrightarrow>
   on_exception iv mx g (do_read cl self reg len sl) tries w
     = (Inl (ReadException CouldNotRead), w @ [wire_read self reg len sl])"
  by (subst on_exception.simps) (simp add: do_read_cases)

lemma on_exception_timeout_retry:
  "connected cl w \<Longrightarrow> reply cl (w @ [wire_read self reg len sl]) = TimeoutError \<Longrightarrow>
   \<not> mx \<le> tries + 1 \<Longrightarrow>
   on_exception iv mx g (do_read cl self reg len sl) tries w
     = on_exception iv mx g (do_read cl self reg len sl) (tries + 1)
         (w @ [wire_read self reg len sl, Sleep iv])"
  by (subst on_exception.simps) (simp add: do_read_cases)

lemma on_exception_timeout_giveup:
  "connected cl w \<Longrightarrow> reply cl (w @ [wire_read self reg len sl]) = TimeoutError \<Longrightarrow>
   mx \<le> tries + 1 \<Longrightarrow>
   on_exception iv mx g (do_read cl self reg len sl) tries w
     = (Inl (g (tries + 1)), w @ [wire_read self reg len sl])"
  by (subst on_exception.simps) (simp add: do_read_cases)

lemma on_exception_always_timeout:
  assumes "\<forall>h. connected cl h" and "\<forall>h. reply cl h = TimeoutError"
  shows "on_exception iv 5 g (do_read cl self reg len sl) 0 w
     = (Inl (g 5), w @ [wire_read self reg len sl, Sleep iv, wire_read self reg len sl, Sleep iv,
                        wire_read self reg len sl, Sleep iv, wire_read self reg len sl, Sleep iv,
                        wire_read self reg len sl])"
proof -
  have five: "Suc (Suc (Suc (Suc (Suc 0)))) = 5" by simp
  show ?thesis
    using assms by (simp add: on_exception_timeout_retry on_exception_timeout_giveup five)
qed

lemma read_registers_shape:
  "\<exists>mid. snd (read_registers cl self reg len sl w)
            = w @ [Acquire] @ mid
                @ (case fst (read_registers cl self reg len sl w) of
                     Inl e \<Rightarrow> [Release]
                   | Inr r \<Rightarrow> [Sleep (cooldown_time self), Release])
      \<and> set mid \<subseteq> {wire_read self reg len sl, Sleep DEFAULT_WAIT}
      \<and> length (wire_reads mid) \<le> 5"
proof -
  obtain added where a:
    "snd (on_exception DEFAULT_WAIT 5 (backoff_giveup reg) (do_read cl self reg len sl) 0
           (w @ [Acquire])) = (w @ [Acquire]) @ added"
    "set added \<subseteq> {wire_read self reg len sl, Sleep DEFAULT_WAIT}"
    "length (wire_reads added) \<le> max 1 (5 - 0)"
    using on_exception_trace [of DEFAULT_WAIT 5 "backoff_giveup reg" cl self reg len sl 0 "w @ [Acquire]"]
    by blast
  obtain res w2 where r:
    "on_exception DEFAULT_WAIT 5 (backoff_giveup reg) (do_read cl self reg len sl) 0
           (w @ [Acquire]) = (res, w2)"
    by (cases "on_exception DEFAULT_WAIT 5 (backoff_giveup reg) (do_read cl self reg len sl) 0
           (w @ [Acquire])")
  with a(1) have w2: "w2 = w @ [Acquire] @ added" by simp
  have "snd (read_registers cl self reg len sl w)
            = w @ [Acquire] @ added
                @ (case fst (read_registers cl self reg len sl w) of
                     Inl e \<Rightarrow> [Release]
                   | Inr r \<Rightarrow> [Sleep (cooldown_time self), Release])"
    by (cases res) (simp_all add: read_registers_def r w2)
  with a(2,3) show ?thesis by auto
qed


lemma decode_response_eq:
  "decode_response self reg decoder =
     (Result (fst (decode reg decoder self))
        (case reg_unit reg of PlainUnit u \<Rightarrow> Some u | _ \<Rightarrow> None),
      snd (decode reg decoder self))"
  by (simp add: decode_response_def split: prod.splits unit_attr.splits)

lemma spec_walk_Cons:
  "spec_walk self (Some p) (d # ds) cursor =
     fst (decode_response self d (skip_bytes cursor ((register d - (register p + reg_length p)) * 2)))
       # spec_walk self (Some d) ds
           (snd (decode_response self d
                  (skip_bytes cursor ((register d - (register p + reg_length p)) * 2))))"
proof -
  have "(register d - register p - reg_length p) * 2 = (register d - (register p + reg_length p)) * 2"
    by simp
  then show ?thesis
    unfolding spec_walk.simps Let_def option.case
    by (simp only: decode_response_eq skip_bytes_def fst_conv snd_conv split: prod.splits) simp
qed

lemma spec_walk_first:
  "spec_walk self None (d # ds) cursor =
     fst (decode_response self d cursor) # spec_walk self (Some d) ds (snd (decode_response self d cursor))"
  by (simp add: decode_response_eq Let_def split: prod.splits)

lemma decode_loop_spec_walk:
  "0 < idx \<Longrightarrow> idx \<le> length regs \<Longrightarrow>
   decode_loop self regs idx decoder result
     = result @ spec_walk self (Some (regs ! (idx - 1))) (drop idx regs) decoder"
proof (induction self regs idx decoder result rule: decode_loop.induct)
  case (1 self registers idx decoder result)
  show ?case
  proof (cases "idx < length registers")
    case False
    with "1.prems" show ?thesis by (subst decode_loop.simps) simp
  next
    case True
    let ?d1 = "skip_bytes decoder
        ((register (registers ! idx)
           - (register (registers ! (idx - 1)) + reg_length (registers ! (idx - 1)))) * 2)"
    obtain r d2 where dr: "decode_response self (registers ! idx) ?d1 = (r, d2)"
      by (cases "decode_response self (registers ! idx) ?d1")
    have step: "decode_loop self registers idx decoder result
        = decode_loop self registers (idx + 1) d2 (result @ [r])"
      using True dr by (subst decode_loop.simps) (simp add: Let_def)
    have ih: "decode_loop self registers (idx + 1) d2 (result @ [r])
        = (result @ [r]) @ spec_walk self (Some (registers ! (idx + 1 - 1)))
             (drop (idx + 1) registers) d2"
      using True dr by (intro "1.IH" [OF True refl refl]) simp_all
    have dropeq: "drop idx registers = registers ! idx # drop (idx + 1) registers"
      using True by (simp add: Cons_nth_drop_Suc)
    show ?thesis
      unfolding step ih dropeq using dr by (simp add: spec_walk_Cons del: spec_walk.simps)
  qed
qed

lemma length_spec_walk: "length (spec_walk self prev ds cursor) = length ds"
  by (induction ds arbitrary: prev cursor) (simp_all add: Let_def split: prod.splits)

lemma units_spec_walk:
  "map result_unit (spec_walk self prev ds cursor)
     = map (\<lambda>d. case reg_unit d of PlainUnit u \<Rightarrow> Some u | _ \<Rightarrow> None) ds"
  by (induction ds arbitrary: prev cursor) (simp_all add: Let_def split: prod.splits)

lemma accepted_iff:
  "accepted REGISTERS names \<longleftrightarrow>
     names \<noteq> [] \<and> (\<forall>n \<in> set names. REGISTERS n \<noteq> None)
       \<and> (\<forall>i. 0 < i \<and> i < length names \<longrightarrow> \<not> overlaps (resolved REGISTERS names) i)"
proof -
  have a: "list_ex Option.is_none (map REGISTERS names) \<longleftrightarrow> (\<exists>n \<in> set names. REGISTERS n = None)"
    by (induction names) (auto simp: Option.is_none_def)
  have b: "check_registers (resolved REGISTERS names) 1 = None \<longleftrightarrow>
      (\<forall>i. 0 < i \<and> i < length names \<longrightarrow> \<not> overlaps (resolved REGISTERS names) i)"
  proof -
    have len: "length (resolved REGISTERS names) = length names" by (simp add: resolved_def)
    have "check_registers (resolved REGISTERS names) 1 = None \<longleftrightarrow>
        (\<forall>i. 1 \<le> i \<and> i < length names \<longrightarrow> \<not> overlaps (resolved REGISTERS names) i)"
      unfolding check_registers_None_iff len ..
    also have "\<dots> \<longleftrightarrow>
        (\<forall>i. 0 < i \<and> i < length names \<longrightarrow> \<not> overlaps (resolved REGISTERS names) i)"
      by (metis One_nat_def Suc_leI less_eq_Suc_le)
    finally show ?thesis .
  qed
  show ?thesis unfolding accepted_def a b by simp
qed

lemma get_multiple_rejected:
  assumes "\<not> accepted REGISTERS names"
  shows "\<exists>v. get_multiple REGISTERS cl self names sl w = (Inl (ValueError v), w)"
proof (cases "names = [] \<or> list_ex Option.is_none (map REGISTERS names)")
  case True
  then show ?thesis by (auto simp: get_multiple_def)
next
  case False
  with assms obtain e where e: "check_registers (resolved REGISTERS names) 1 = Some e"
    by (auto simp: accepted_def)
  then obtain v where "e = ValueError v" using check_registers_ValueError by blast
  with e False show ?thesis by (simp add: get_multiple_def resolved_def Let_def)
qed


lemma first_walk:
  assumes "regs \<noteq> []"
  shows "(case decode_response self (regs ! 0) cursor of
             (r, decoder) \<Rightarrow> decode_loop self regs 1 decoder [r])
        = spec_walk self None regs cursor"
proof -
  obtain d ds where regs_eq: "regs = d # ds" using assms by (cases regs) simp_all
  obtain r decoder where dr: "decode_response self d cursor = (r, decoder)"
    by (cases "decode_response self d cursor")
  have "decode_loop self regs 1 decoder [r]
        = [r] @ spec_walk self (Some (regs ! (1 - 1))) (drop 1 regs) decoder"
    by (rule decode_loop_spec_walk) (simp_all add: regs_eq)
  then have "decode_loop self regs 1 decoder [r] = r # spec_walk self (Some d) ds decoder"
    by (simp add: regs_eq del: spec_walk.simps)
  moreover have "spec_walk self None regs cursor = r # spec_walk self (Some d) ds decoder"
    unfolding regs_eq spec_walk_first dr by simp
  ultimately show ?thesis using dr by (simp add: regs_eq del: spec_walk.simps)
qed


lemma get_multiple_unfold:
  assumes "accepted REGISTERS names"
    and "read_registers cl self (start_register (resolved REGISTERS names))
            (total_length (resolved REGISTERS names)) sl w = (res, w')"
  shows "get_multiple REGISTERS cl self names sl w =
    (case res of
       Inl e \<Rightarrow> (Inl e, w')
     | Inr (ExceptionResponse code) \<Rightarrow>
         (Inl (ReadException (ErrorResponse (start_register (resolved REGISTERS names))
                 (total_length (resolved REGISTERS names)) code)), w')
     | Inr (ReadHoldingRegistersResponse words) \<Rightarrow>
         (Inr (spec_walk self None (resolved REGISTERS names) (fromRegisters words)), w'))"
proof -
  let ?regs = "resolved REGISTERS names"
  from assms(1) have c: "length names \<noteq> 0" "\<not> list_ex Option.is_none (map REGISTERS names)"
    "check_registers ?regs 1 = None" by (simp_all add: accepted_def)
  from c(1) have ne: "?regs \<noteq> []" by (simp add: resolved_def)
  note rr = assms(2) [unfolded start_register_def total_length_def]
  have gm: "get_multiple REGISTERS cl self names sl w =
    (case res of
       Inl e \<Rightarrow> (Inl e, w')
     | Inr (ExceptionResponse code) \<Rightarrow>
         (Inl (ReadException (ErrorResponse (register (?regs ! 0))
             (register (last ?regs) + reg_length (last ?regs) - register (?regs ! 0)) code)), w')
     | Inr (ReadHoldingRegistersResponse words) \<Rightarrow>
         (case decode_response self (?regs ! 0) (fromRegisters words) of
            (r, decoder) \<Rightarrow> (Inr (decode_loop self ?regs 1 decoder [r]), w')))"
    unfolding get_multiple_def Let_def resolved_def [symmetric] rr
    by (simp only: c if_False option.case prod.case split: sum.splits response.splits)
  show ?thesis
  proof (cases res)
    case (Inl e)
    then show ?thesis by (simp add: gm)
  next
    case (Inr resp)
    show ?thesis
    proof (cases resp)
      case (ExceptionResponse code)
      with Inr show ?thesis by (simp add: gm start_register_def total_length_def)
    next
      case (ReadHoldingRegistersResponse words)
      have "(case decode_response self (?regs ! 0) (fromRegisters words) of
            (r, decoder) \<Rightarrow> (Inr (decode_loop self ?regs 1 decoder [r]), w'))
         = (Inr (case decode_response self (?regs ! 0) (fromRegisters words) of
            (r, decoder) \<Rightarrow> decode_loop self ?regs 1 decoder [r]), w')"
        by (simp split: prod.splits)
      with Inr ReadHoldingRegistersResponse first_walk [OF ne, of self "fromRegisters words"]
      show ?thesis by (simp add: gm)
    qed
  qed
qed

lemma get_multiple_trace:
  "snd (get_multiple REGISTERS cl self names sl w) =
     (if accepted REGISTERS names
      then snd (read_registers cl self (start_register (resolved REGISTERS names))
                 (total_length (resolved REGISTERS names)) sl w)
      else w)"
proof (cases "accepted REGISTERS names")
  case False
  with get_multiple_rejected [OF False, of cl self sl w] show ?thesis by auto
next
  case True
  obtain res w' where rr: "read_registers cl self (start_register (resolved REGISTERS names))
            (total_length (resolved REGISTERS names)) sl w = (res, w')"
    by (cases "read_registers cl self (start_register (resolved REGISTERS names))
            (total_length (resolved REGISTERS names)) sl w")
  show ?thesis
    using True by (simp add: get_multiple_unfold [OF True rr] rr split: sum.splits response.splits)
qed

lemma get_trace:
  "snd (get REGISTERS cl self name sl w) = snd (get_multiple REGISTERS cl self [name] sl w)"
  by (simp add: get_def split: prod.splits sum.splits list.splits)

lemma read_registers_not_connected:
  "\<not> connected cl (w @ [Acquire]) \<Longrightarrow>
   read_registers cl self reg len sl w = (Inl ConnectionException, w @ [Acquire, Release])"
  by (simp add: read_registers_def on_exception_not_connected)

lemma read_registers_reply:
  "connected cl (w @ [Acquire]) \<Longrightarrow>
   reply cl (w @ [Acquire, wire_read self reg len sl]) = Reply resp \<Longrightarrow>
   read_registers cl self reg len sl w
     = (Inr resp, w @ [Acquire, wire_read self reg len sl, Sleep (cooldown_time self), Release])"
  by (simp add: read_registers_def on_exception_reply)

lemma read_registers_connection_lost:
  "connected cl (w @ [Acquire]) \<Longrightarrow>
   reply cl (w @ [Acquire, wire_read self reg len sl]) = ModbusConnectionException \<Longrightarrow>
   read_registers cl self reg len sl w
     = (Inl (ReadException CouldNotRead), w @ [Acquire, wire_read self reg len sl, Release])"
  by (simp add: read_registers_def on_exception_connection_lost)

lemma read_registers_always_timeout:
  assumes "\<forall>h. connected cl h" and "\<forall>h. reply cl h = TimeoutError"
  shows "read_registers cl self reg len sl w
     = (Inl (ReadException (GaveUp reg 5)),
        w @ [Acquire, wire_read self reg len sl, Sleep DEFAULT_WAIT,
             wire_read self reg len sl, Sleep DEFAULT_WAIT,
             wire_read self reg len sl, Sleep DEFAULT_WAIT,
             wire_read self reg len sl, Sleep DEFAULT_WAIT,
             wire_read self reg len sl, Release])"
  by (simp add: read_registers_def on_exception_always_timeout [OF assms] backoff_giveup_def)

lemma wire_reads_mid:
  assumes "set mid \<subseteq> {wire_read self reg len sl, Sleep d}"
  shows "wire_reads mid = replicate (length (wire_reads mid)) (wire_read self reg len sl)"
proof (rule replicate_eqI)
  show "length (wire_reads mid) = length (wire_reads mid)" ..
next
  fix y assume "y \<in> set (wire_reads mid)"
  then have "y \<in> set mid" "is_read y" by (simp_all add: wire_reads_def)
  with assms show "y = wire_read self reg len sl" by auto
qed

lemma wire_reads_new_events:
  "\<exists>k\<le>5. wire_reads (drop (length w) (snd (read_registers cl self reg len sl w)))
      = replicate k (wire_read self reg len sl)"
proof -
  obtain mid where m:
    "snd (read_registers cl self reg len sl w)
       = w @ [Acquire] @ mid
           @ (case fst (read_registers cl self reg len sl w) of
                Inl e \<Rightarrow> [Release] | Inr r \<Rightarrow> [Sleep (cooldown_time self), Release])"
    "set mid \<subseteq> {wire_read self reg len sl, Sleep DEFAULT_WAIT}"
    "length (wire_reads mid) \<le> 5"
    using read_registers_shape by blast
  have "wire_reads (drop (length w) (snd (read_registers cl self reg len sl w))) = wire_reads mid"
    unfolding m(1) by (simp add: wire_reads_def split: sum.splits)
  with wire_reads_mid [OF m(2)] m(3) show ?thesis by metis
qed

lemma new_events_unit:
  assumes "sl = None \<or> sl = Some 0"
  shows "list_all (read_unit_is (slave self))
           (drop (length w) (snd (read_registers cl self reg len sl w)))"
proof -
  obtain mid where m:
    "snd (read_registers cl self reg len sl w)
       = w @ [Acquire] @ mid
           @ (case fst (read_registers cl self reg len sl w) of
                Inl e \<Rightarrow> [Release] | Inr r \<Rightarrow> [Sleep (cooldown_time self), Release])"
    "set mid \<subseteq> {wire_read self reg len sl, Sleep DEFAULT_WAIT}"
    using read_registers_shape by blast
  from assms have "slave_or sl (slave self) = slave self" by (auto simp: slave_or_def)
  then have "read_unit_is (slave self) (wire_read self reg len sl)" by (simp add: wire_read_def)
  with m(2) have "list_all (read_unit_is (slave self)) mid"
    by (auto simp: list_all_iff)
  then show ?thesis unfolding m(1) by (simp split: sum.splits)
qed

lemma backoff_rounds_0 [simp]: "backoff_rounds 0 r = []"
  by (simp add: backoff_rounds_def)

lemma backoff_rounds_Suc: "backoff_rounds (Suc k) r = backoff_rounds k r @ [r, Sleep DEFAULT_WAIT]"
proof -
  have "replicate (Suc k) [r, Sleep DEFAULT_WAIT]
          = replicate k [r, Sleep DEFAULT_WAIT] @ [[r, Sleep DEFAULT_WAIT]]"
    by (simp add: replicate_append_same)
  then show ?thesis unfolding backoff_rounds_def by (simp del: replicate.simps)
qed

lemma on_exception_rounds:
  assumes "\<forall>j<k. attempt_times_out cl (h @ backoff_rounds j (wire_read self reg len sl))
                     (wire_read self reg len sl)"
    and "tries + k < mx"
  shows "on_exception DEFAULT_WAIT mx g (do_read cl self reg len sl) tries h
       = on_exception DEFAULT_WAIT mx g (do_read cl self reg len sl) (tries + k)
           (h @ backoff_rounds k (wire_read self reg len sl))"
  using assms
proof (induction k)
  case 0
  show ?case by simp
next
  case (Suc k)
  let ?R = "wire_read self reg len sl"
  from Suc.prems have ih: "on_exception DEFAULT_WAIT mx g (do_read cl self reg len sl) tries h
       = on_exception DEFAULT_WAIT mx g (do_read cl self reg len sl) (tries + k)
           (h @ backoff_rounds k ?R)"
    by (intro Suc.IH) simp_all
  from Suc.prems(1) have t: "attempt_times_out cl (h @ backoff_rounds k ?R) ?R" by simp
  from Suc.prems(2) have n: "\<not> mx \<le> (tries + k) + 1" by simp
  have "on_exception DEFAULT_WAIT mx g (do_read cl self reg len sl) (tries + k)
           (h @ backoff_rounds k ?R)
      = on_exception DEFAULT_WAIT mx g (do_read cl self reg len sl) ((tries + k) + 1)
           ((h @ backoff_rounds k ?R) @ [?R, Sleep DEFAULT_WAIT])"
    using t n unfolding attempt_times_out_def by (intro on_exception_timeout_retry) simp_all
  with ih show ?case by (simp add: backoff_rounds_Suc)
qed

lemma read_registers_after_timeouts:
  fixes self :: "'v AsyncHuaweiSolar" and reg len :: int and sl :: "int option"
    and w :: trace and k :: nat
  defines "R \<equiv> wire_read self reg len sl"
  defines "pre \<equiv> w @ [Acquire] @ backoff_rounds k (wire_read self reg len sl)"
  assumes "\<forall>j<k. attempt_times_out cl (w @ [Acquire] @ backoff_rounds j R) R" and "k < 5"
  shows "\<not> connected cl pre \<Longrightarrow>
           read_registers cl self reg len sl w = (Inl ConnectionException, pre @ [Release])"
    and "connected cl pre \<Longrightarrow> reply cl (pre @ [R]) = Reply resp \<Longrightarrow>
           read_registers cl self reg len sl w
             = (Inr resp, pre @ [R, Sleep (cooldown_time self), Release])"
    and "connected cl pre \<Longrightarrow> reply cl (pre @ [R]) = ModbusConnectionException \<Longrightarrow>
           read_registers cl self reg len sl w
             = (Inl (ReadException CouldNotRead), pre @ [R, Release])"
    and "k = 4 \<Longrightarrow> attempt_times_out cl pre R \<Longrightarrow>
           read_registers cl self reg len sl w
             = (Inl (ReadException (GaveUp reg 5)), pre @ [R, Release])"
proof -
  have rounds: "on_exception DEFAULT_WAIT 5 (backoff_giveup reg) (do_read cl self reg len sl) 0
                  (w @ [Acquire])
       = on_exception DEFAULT_WAIT 5 (backoff_giveup reg) (do_read cl self reg len sl) k pre"
    using on_exception_rounds [of k cl "w @ [Acquire]" self reg len sl 0 5 "backoff_giveup reg"]
      assms(3,4) by (simp add: R_def pre_def)
  show "\<not> connected cl pre \<Longrightarrow>
           read_registers cl self reg len sl w = (Inl ConnectionException, pre @ [Release])"
    by (simp add: read_registers_def rounds on_exception_not_connected)
  show "connected cl pre \<Longrightarrow> reply cl (pre @ [R]) = Reply resp \<Longrightarrow>
           read_registers cl self reg len sl w
             = (Inr resp, pre @ [R, Sleep (cooldown_time self), Release])"
    by (simp add: read_registers_def rounds on_exception_reply R_def)
  show "connected cl pre \<Longrightarrow> reply cl (pre @ [R]) = ModbusConnectionException \<Longrightarrow>
           read_registers cl self reg len sl w
             = (Inl (ReadException CouldNotRead), pre @ [R, Release])"
    by (simp add: read_registers_def rounds on_exception_connection_lost R_def)
  show "k = 4 \<Longrightarrow> attempt_times_out cl pre R \<Longrightarrow>
           read_registers cl self reg len sl w
             = (Inl (ReadException (GaveUp reg 5)), pre @ [R, Release])"
    by (simp add: read_registers_def rounds on_exception_timeout_giveup R_def
        attempt_times_out_def backoff_giveup_def)
qed

lemma read_registers_cases:
  fixes self :: "'v AsyncHuaweiSolar"
  shows "\<exists>k<5. (\<forall>j<k. attempt_times_out cl
                      (w @ [Acquire] @ backoff_rounds j (wire_read self reg len sl))
                      (wire_read self reg len sl))
     \<and> ((\<not> connected cl (w @ [Acquire] @ backoff_rounds k (wire_read self reg len sl))
           \<and> read_registers cl self reg len sl w
               = (Inl ConnectionException,
                  (w @ [Acquire] @ backoff_rounds k (wire_read self reg len sl)) @ [Release]))
        \<or> (\<exists>resp. connected cl (w @ [Acquire] @ backoff_rounds k (wire_read self reg len sl))
              \<and> reply cl ((w @ [Acquire] @ backoff_rounds k (wire_read self reg len sl))
                            @ [wire_read self reg len sl]) = Reply resp
              \<and> read_registers cl self reg len sl w
                  = (Inr resp, (w @ [Acquire] @ backoff_rounds k (wire_read self reg len sl))
                       @ [wire_read self reg len sl, Sleep (cooldown_time self), Release]))
        \<or> (connected cl (w @ [Acquire] @ backoff_rounds k (wire_read self reg len sl))
              \<and> reply cl ((w @ [Acquire] @ backoff_rounds k (wire_read self reg len sl))
                            @ [wire_read self reg len sl]) = ModbusConnectionException
              \<and> read_registers cl self reg len sl w
                  = (Inl (ReadException CouldNotRead),
                     (w @ [Acquire] @ backoff_rounds k (wire_read self reg len sl))
                       @ [wire_read self reg len sl, Release]))
        \<or> (k = 4 \<and> attempt_times_out cl
                        (w @ [Acquire] @ backoff_rounds k (wire_read self reg len sl))
                        (wire_read self reg len sl)
              \<and> read_registers cl self reg len sl w
                  = (Inl (ReadException (GaveUp reg 5)),
                     (w @ [Acquire] @ backoff_rounds k (wire_read self reg len sl))
                       @ [wire_read self reg len sl, Release])))"
    (is "\<exists>k<5. (\<forall>j<k. ?T j) \<and> ?D k")
proof (cases "\<forall>j<5. ?T j")
  case True
  then have a: "\<forall>j<4. ?T j" and b: "?T 4" by simp_all
  have "read_registers cl self reg len sl w
          = (Inl (ReadException (GaveUp reg 5)),
             (w @ [Acquire] @ backoff_rounds 4 (wire_read self reg len sl))
               @ [wire_read self reg len sl, Release])"
    using a b by (intro read_registers_after_timeouts(4)) simp_all
  with a b have "?D 4" by simp
  with a show ?thesis by (intro exI [of _ 4]) simp
next
  case False
  define k where "k = (LEAST j. \<not> ?T j)"
  from False obtain j0 where j0: "j0 < 5" "\<not> ?T j0" by blast
  from j0(2) have nk: "\<not> ?T k"
    unfolding k_def by (rule LeastI [of "\<lambda>j. \<not> ?T j"])
  from j0 have k5: "k < 5"
    unfolding k_def using Least_le [of "\<lambda>j. \<not> ?T j" j0] by simp
  have before: "\<forall>j<k. ?T j"
    unfolding k_def using not_less_Least by blast
  note after = read_registers_after_timeouts [OF before k5]
  have "?D k"
  proof (cases "connected cl (w @ [Acquire] @ backoff_rounds k (wire_read self reg len sl))")
    case False
    with after(1) show ?thesis by simp
  next
    case True
    show ?thesis
    proof (cases "reply cl ((w @ [Acquire] @ backoff_rounds k (wire_read self reg len sl))
                            @ [wire_read self reg len sl])")
      case (Reply resp)
      with True after(2) show ?thesis by simp
    next
      case ModbusConnectionException
      with True after(3) show ?thesis by simp
    next
      case TimeoutError
      with True nk show ?thesis by (simp add: attempt_times_out_def)
    qed
  qed
  with k5 before show ?thesis by blast
qed

section \<open>The claims\<close>

text \<open>
  C1. The claim: a request with a gap of more than 64 words between two consecutive
  definitions fails with a \<open>ValueError\<close> and no wire read is issued. The code computes the
  distance as end of the definition before minus start of this one, which is never
  positive once the order test has passed, so the test \<open>register_distance > 64\<close> never
  fires. Here \<open>A\<close> ends at word 1 and \<open>F\<close> starts at word 100, a gap of 99 words: the request
  is accepted and one read of 101 words goes to the wire.
\<close>

theorem gap_over_64_is_read:
  "get_multiple REGISTERS0 (client_words (replicate 101 0)) session0 [''A'', ''F''] None []
     = (Inr [Result [0, 0] (Some ''V''), Result [0, 0] None],
        [Acquire, ReadHoldingRegisters 0 101 0 5, Sleep (1 / 100), Release])"
  by code_simp

text \<open>
  C2, as stated, fails. The claim: the lock is held until the cool-down sleep has elapsed
  after the exchange, whether the exchange succeeds or fails. With a client whose read
  raises a connection failure, the lock is given back right after the read; the trace has
  no cool-down sleep.
\<close>

theorem failed_exchange_skips_cooldown:
  "read_registers (client_fixed ModbusConnectionException) session0 0 1 None []
     = (Inl (ReadException CouldNotRead), [Acquire, ReadHoldingRegisters 0 1 0 5, Release])
   \<and> Sleep (cooldown_time session0)
       \<notin> set (snd (read_registers (client_fixed ModbusConnectionException) session0 0 1 None []))"
  by code_simp

text \<open>
  C2, amended. Every exchange takes the lock first, and its trace is fully determined: after
  the lock come \<open>k < 5\<close> attempts that timed out, each a wire read followed by the sleep of
  the retry loop, and then the last attempt. If that attempt gets a response, the trace
  goes on with the wire read, the cool-down sleep and the lock given back. If it raises,
  the lock is given back at once, without the cool-down sleep: directly after the check
  that found the client not connected, or directly after the wire read that raised the
  connection failure, or directly after the fifth wire read that timed out.
\<close>

theorem lock_held_around_exchange:
  fixes self :: "'v AsyncHuaweiSolar" and reg len :: int and sl :: "int option" and w :: trace
    and cl :: client
  defines "R \<equiv> wire_read self reg len sl"
  defines "pre \<equiv> \<lambda>j. w @ [Acquire] @ backoff_rounds j (wire_read self reg len sl)"
  defines "rr \<equiv> read_registers cl self reg len sl w"
  shows "\<exists>k<5. (\<forall>j<k. attempt_times_out cl (pre j) R)
     \<and> ((\<not> connected cl (pre k) \<and> rr = (Inl ConnectionException, pre k @ [Release]))
        \<or> (\<exists>resp. connected cl (pre k) \<and> reply cl (pre k @ [R]) = Reply resp
              \<and> rr = (Inr resp, pre k @ [R, Sleep (cooldown_time self), Release]))
        \<or> (connected cl (pre k) \<and> reply cl (pre k @ [R]) = ModbusConnectionException
              \<and> rr = (Inl (ReadException CouldNotRead), pre k @ [R, Release]))
        \<or> (k = 4 \<and> attempt_times_out cl (pre k) R
              \<and> rr = (Inl (ReadException (GaveUp reg 5)), pre k @ [R, Release])))"
  unfolding R_def pre_def rr_def by (rule read_registers_cases)

text \<open>An exchange that is answered at once, on the test bench: the number of attempts
  that timed out is 0 and the trace is the lock, the read, the cool-down sleep, the lock
  given back.\<close>

theorem lock_held_around_exchange_witness:
  "read_registers (client_words [1, 2, 3]) session0 0 3 None []
     = (Inr (ReadHoldingRegistersResponse [1, 2, 3]),
        [Acquire, ReadHoldingRegisters 0 3 0 5, Sleep (1 / 100), Release])"
proof -
  let ?cl = "client_words [1, 2, 3]"
  let ?R = "wire_read session0 0 3 None"
  from lock_held_around_exchange [of ?cl "[]" session0 0 3 None]
  obtain k where k: "\<forall>j<k. attempt_times_out ?cl ([] @ [Acquire] @ backoff_rounds j ?R) ?R"
    and d: "(\<not> connected ?cl ([] @ [Acquire] @ backoff_rounds k ?R)
              \<and> read_registers ?cl session0 0 3 None []
                  = (Inl ConnectionException, ([] @ [Acquire] @ backoff_rounds k ?R) @ [Release]))
        \<or> (\<exists>resp. connected ?cl ([] @ [Acquire] @ backoff_rounds k ?R)
              \<and> reply ?cl (([] @ [Acquire] @ backoff_rounds k ?R) @ [?R]) = Reply resp
              \<and> read_registers ?cl session0 0 3 None []
                  = (Inr resp, ([] @ [Acquire] @ backoff_rounds k ?R)
                       @ [?R, Sleep (cooldown_time session0), Release]))
        \<or> (connected ?cl ([] @ [Acquire] @ backoff_rounds k ?R)
              \<and> reply ?cl (([] @ [Acquire] @ backoff_rounds k ?R) @ [?R]) = ModbusConnectionException
              \<and> read_registers ?cl session0 0 3 None []
                  = (Inl (ReadException CouldNotRead),
                     ([] @ [Acquire] @ backoff_rounds k ?R) @ [?R, Release]))
        \<or> (k = 4 \<and> attempt_times_out ?cl ([] @ [Acquire] @ backoff_rounds k ?R) ?R
              \<and> read_registers ?cl session0 0 3 None []
                  = (Inl (ReadException (GaveUp 0 5)),
                     ([] @ [Acquire] @ backoff_rounds k ?R) @ [?R, Release]))"
    by blast
  have never: "\<And>h. \<not> attempt_times_out ?cl h ?R"
    by (simp add: attempt_times_out_def client_words_def)
  from k never have k0: "k = 0" by (cases k) auto
  have v: "?R = ReadHoldingRegisters 0 3 0 5" "cooldown_time session0 = 1 / 100"
    by (simp_all add: wire_read_def session0_def slave_or_def DEFAULT_SLAVE_def
        DEFAULT_TIMEOUT_def DEFAULT_COOLDOWN_TIME_def)
  from d never show ?thesis
    unfolding k0 by (auto simp: client_words_def v)
qed

text \<open>
  C3. A request that is empty, or has a name that is not in the table, or has two
  consecutive resolved definitions of which the first ends behind the start of the second,
  fails with a \<open>ValueError\<close>, and the trace is unchanged: no lock, no wire read, no sleep.
\<close>

theorem get_multiple_rejects_bad_request:
  assumes "names = []
     \<or> (\<exists>n \<in> set names. REGISTERS n = None)
     \<or> (\<exists>i. 0 < i \<and> i < length names
           \<and> register (resolved REGISTERS names ! (i - 1))
                + reg_length (resolved REGISTERS names ! (i - 1))
              > register (resolved REGISTERS names ! i))"
  shows "\<exists>v. get_multiple REGISTERS cl self names sl w = (Inl (ValueError v), w)"
proof -
  from assms have "\<not> accepted REGISTERS names"
    unfolding accepted_iff overlaps_def by blast
  then show ?thesis by (rule get_multiple_rejected)
qed

text \<open>The three kinds of rejected requests, on the test bench.\<close>

theorem get_multiple_rejects_bad_request_witness:
  "get_multiple REGISTERS0 (client_words [1, 2, 3]) session0 [''B'', ''A''] None []
     = (Inl (ValueError (NotIncreasing 1 2 0)), [])
   \<and> get_multiple REGISTERS0 (client_words [1, 2, 3]) session0 [] None []
     = (Inl (ValueError NoNames), [])
   \<and> get_multiple REGISTERS0 (client_words [1, 2, 3]) session0 [''A'', ''X''] None []
     = (Inl (ValueError UnrecognizedNames), [])"
proof -
  have h: "\<exists>i. 0 < i \<and> i < length [''B'', ''A'']
           \<and> register (resolved REGISTERS0 [''B'', ''A''] ! (i - 1))
                + reg_length (resolved REGISTERS0 [''B'', ''A''] ! (i - 1))
              > register (resolved REGISTERS0 [''B'', ''A''] ! i)"
    by (rule exI [of _ 1]) (simp add: resolved_def REGISTERS0_def reg_def_def)
  have r: "\<exists>v. get_multiple REGISTERS0 (client_words [1, 2, 3]) session0 [''B'', ''A''] None []
             = (Inl (ValueError v), [])"
    by (rule get_multiple_rejects_bad_request) (use h in blast)
  have e: "get_multiple REGISTERS0 (client_words [1, 2, 3]) session0 [''B'', ''A''] None []
     = (Inl (ValueError (NotIncreasing 1 2 0)), [])
   \<and> get_multiple REGISTERS0 (client_words [1, 2, 3]) session0 [] None []
     = (Inl (ValueError NoNames), [])
   \<and> get_multiple REGISTERS0 (client_words [1, 2, 3]) session0 [''A'', ''X''] None []
     = (Inl (ValueError UnrecognizedNames), [])"
    by code_simp
  from r e show ?thesis by simp
qed

text \<open>
  C4. The retry on time-out. Let the first \<open>k\<close> attempts of an exchange time out. Each of
  them is a wire read followed by a sleep of the constant \<open>DEFAULT_WAIT\<close>, and as long as
  \<open>k < 5\<close> the exchange goes on with a further attempt, whose outcome is the outcome of the
  exchange: a response is returned (after the cool-down sleep), a connection failure
  becomes a read exception, a client that is no longer connected gives
  \<open>ConnectionException\<close>. When five attempts have timed out, the exchange fails after the
  fifth wire read, with four sleeps of \<open>DEFAULT_WAIT\<close> behind it, with the read exception that
  reports the register and 5 tries. For any client an exchange issues at most 5 wire
  reads.
\<close>

theorem timeouts_retried_five_times:
  fixes self :: "'v AsyncHuaweiSolar" and reg len :: int and sl :: "int option" and w :: trace
    and cl :: client
  defines "R \<equiv> wire_read self reg len sl"
  defines "pre \<equiv> \<lambda>j. w @ [Acquire] @ backoff_rounds j (wire_read self reg len sl)"
  defines "rr \<equiv> read_registers cl self reg len sl w"
  assumes "\<forall>j<k. attempt_times_out cl (pre j) R"
  shows "(k < 5 \<and> connected cl (pre k) \<and> reply cl (pre k @ [R]) = Reply resp \<longrightarrow>
            rr = (Inr resp, pre k @ [R, Sleep (cooldown_time self), Release]))
       \<and> (k < 5 \<and> connected cl (pre k) \<and> reply cl (pre k @ [R]) = ModbusConnectionException \<longrightarrow>
            rr = (Inl (ReadException CouldNotRead), pre k @ [R, Release]))
       \<and> (k < 5 \<and> \<not> connected cl (pre k) \<longrightarrow>
            rr = (Inl ConnectionException, pre k @ [Release]))
       \<and> (5 \<le> k \<longrightarrow>
            rr = (Inl (ReadException (GaveUp reg 5)), pre 4 @ [R, Release]))
       \<and> length (wire_reads (drop (length w) (snd rr))) \<le> 5"
proof -
  note t = assms(4) [unfolded R_def pre_def]
  have five: "rr = (Inl (ReadException (GaveUp reg 5)), pre 4 @ [R, Release])" if "5 \<le> k"
  proof -
    from t that have a: "\<forall>j<4. attempt_times_out cl
          (w @ [Acquire] @ backoff_rounds j (wire_read self reg len sl)) (wire_read self reg len sl)"
      and b: "attempt_times_out cl
          (w @ [Acquire] @ backoff_rounds 4 (wire_read self reg len sl)) (wire_read self reg len sl)"
      by simp_all
    show ?thesis
      unfolding rr_def pre_def R_def
      using a b by (intro read_registers_after_timeouts(4)) simp_all
  qed
  have bound: "length (wire_reads (drop (length w) (snd rr))) \<le> 5"
    unfolding rr_def using wire_reads_new_events [of w cl self reg len sl] by auto
  show ?thesis
    unfolding rr_def pre_def R_def
    using read_registers_after_timeouts(1-3) [OF t] five bound
    unfolding rr_def pre_def R_def by blast
qed

text \<open>On the test bench: a client that times out twice and then answers gives the answer
  after two sleeps of 2 seconds; a client that always times out gives five reads, four
  sleeps of 2 seconds and the read exception after 5 tries.\<close>

theorem timeouts_retried_five_times_witness:
  "read_registers
      (client_script [TimeoutError, TimeoutError, Reply (ReadHoldingRegistersResponse [7])])
      session0 0 1 None []
     = (Inr (ReadHoldingRegistersResponse [7]),
        [Acquire, ReadHoldingRegisters 0 1 0 5, Sleep 2, ReadHoldingRegisters 0 1 0 5, Sleep 2,
         ReadHoldingRegisters 0 1 0 5, Sleep (1 / 100), Release])
   \<and> read_registers (client_fixed TimeoutError) session0 0 3 None []
     = (Inl (ReadException (GaveUp 0 5)),
        [Acquire, ReadHoldingRegisters 0 3 0 5, Sleep 2, ReadHoldingRegisters 0 3 0 5, Sleep 2,
         ReadHoldingRegisters 0 3 0 5, Sleep 2, ReadHoldingRegisters 0 3 0 5, Sleep 2,
         ReadHoldingRegisters 0 3 0 5, Release])"
proof -
  let ?cl = "client_script [TimeoutError, TimeoutError, Reply (ReadHoldingRegistersResponse [7])]"
  let ?R = "wire_read session0 0 1 None"
  have t2: "\<forall>j<2. attempt_times_out ?cl ([] @ [Acquire] @ backoff_rounds j ?R) ?R"
  proof (intro allI impI)
    fix j :: nat assume "j < 2"
    then have "j = 0 \<or> j = Suc 0" by (rule less_2_cases)
    moreover have "attempt_times_out ?cl ([] @ [Acquire] @ backoff_rounds 0 ?R) ?R" by code_simp
    moreover have "attempt_times_out ?cl ([] @ [Acquire] @ backoff_rounds (Suc 0) ?R) ?R"
      by code_simp
    ultimately show "attempt_times_out ?cl ([] @ [Acquire] @ backoff_rounds j ?R) ?R" by blast
  qed
  have c2: "2 < (5::nat) \<and> connected ?cl ([] @ [Acquire] @ backoff_rounds 2 ?R)
      \<and> reply ?cl (([] @ [Acquire] @ backoff_rounds 2 ?R) @ [?R])
          = Reply (ReadHoldingRegistersResponse [7])"
    by code_simp
  have e2: "([] @ [Acquire] @ backoff_rounds 2 ?R) @ [?R, Sleep (cooldown_time session0), Release]
      = [Acquire, ReadHoldingRegisters 0 1 0 5, Sleep 2, ReadHoldingRegisters 0 1 0 5, Sleep 2,
         ReadHoldingRegisters 0 1 0 5, Sleep (1 / 100), Release]"
    by code_simp
  have first: "read_registers ?cl session0 0 1 None []
     = (Inr (ReadHoldingRegistersResponse [7]),
        [Acquire, ReadHoldingRegisters 0 1 0 5, Sleep 2, ReadHoldingRegisters 0 1 0 5, Sleep 2,
         ReadHoldingRegisters 0 1 0 5, Sleep (1 / 100), Release])"
  proof -
    have "read_registers ?cl session0 0 1 None []
       = (Inr (ReadHoldingRegistersResponse [7]),
          ([] @ [Acquire] @ backoff_rounds 2 ?R) @ [?R, Sleep (cooldown_time session0), Release])"
      using timeouts_retried_five_times [OF t2, of "ReadHoldingRegistersResponse [7]"] c2
      by blast
    then show ?thesis unfolding e2 .
  qed
  let ?S = "wire_read session0 0 3 None"
  have t5: "\<forall>j<5. attempt_times_out (client_fixed TimeoutError)
                     ([] @ [Acquire] @ backoff_rounds j ?S) ?S"
    by (simp add: attempt_times_out_def client_fixed_def)
  have e5: "([] @ [Acquire] @ backoff_rounds 4 ?S) @ [?S, Release]
      = [Acquire, ReadHoldingRegisters 0 3 0 5, Sleep 2, ReadHoldingRegisters 0 3 0 5, Sleep 2,
         ReadHoldingRegisters 0 3 0 5, Sleep 2, ReadHoldingRegisters 0 3 0 5, Sleep 2,
         ReadHoldingRegisters 0 3 0 5, Release]"
    by code_simp
  have second: "read_registers (client_fixed TimeoutError) session0 0 3 None []
     = (Inl (ReadException (GaveUp 0 5)),
        [Acquire, ReadHoldingRegisters 0 3 0 5, Sleep 2, ReadHoldingRegisters 0 3 0 5, Sleep 2,
         ReadHoldingRegisters 0 3 0 5, Sleep 2, ReadHoldingRegisters 0 3 0 5, Sleep 2,
         ReadHoldingRegisters 0 3 0 5, Release])"
  proof -
    have "(5::nat) \<le> 5" by simp
    then have "read_registers (client_fixed TimeoutError) session0 0 3 None []
       = (Inl (ReadException (GaveUp 0 5)), ([] @ [Acquire] @ backoff_rounds 4 ?S) @ [?S, Release])"
      using timeouts_retried_five_times [OF t5] by blast
    then show ?thesis unfolding e5 .
  qed
  from first second show ?thesis by simp
qed

text \<open>
  C5. If the client does not report itself connected when the first attempt looks (right
  after the lock is taken), the read fails with \<open>ConnectionException\<close>; the trace gains the
  lock being taken and given back and nothing else: no wire read, no retry, no sleep. The
  same holds for \<open>get_multiple\<close> and \<open>get\<close> on a request that passes the checks.
\<close>

theorem not_connected_fails_at_once:
  assumes "\<not> connected cl (w @ [Acquire])"
  shows "read_registers cl self reg len sl w = (Inl ConnectionException, w @ [Acquire, Release])
    \<and> (accepted REGISTERS names \<longrightarrow>
         get_multiple REGISTERS cl self names sl w
           = (Inl ConnectionException, w @ [Acquire, Release]))
    \<and> (accepted REGISTERS [name] \<longrightarrow>
         get REGISTERS cl self name sl w = (Inl ConnectionException, w @ [Acquire, Release]))"
proof -
  note rr = read_registers_not_connected [OF assms]
  have gm: "\<And>ns. accepted REGISTERS ns \<Longrightarrow>
         get_multiple REGISTERS cl self ns sl w
           = (Inl ConnectionException, w @ [Acquire, Release])"
    by (simp add: get_multiple_unfold [OF _ rr])
  show ?thesis using rr gm by (simp add: get_def)
qed

text \<open>A client that is not connected, on the test bench.\<close>

theorem not_connected_fails_at_once_witness:
  "\<not> connected client_down ([] @ [Acquire])
   \<and> accepted REGISTERS0 [''A'']
   \<and> get REGISTERS0 client_down session0 ''A'' None [] = (Inl ConnectionException, [Acquire, Release])"
proof -
  have h: "\<not> connected client_down ([] @ [Acquire])" by (simp add: client_down_def)
  have a: "accepted REGISTERS0 [''A'']" by code_simp
  from not_connected_fails_at_once [OF h, of session0 0 1 None REGISTERS0 "[''A'']" "''A''"] a h
  show ?thesis by simp
qed

text \<open>
  C6. For a request that passes the checks on a connected client: if the read is answered
  with an exception response, \<open>get_multiple\<close> fails with a read exception after exactly one
  wire read (followed by the cool-down sleep); if the read raises a connection failure,
  it fails with a read exception after exactly one wire read. More generally, at any try
  of the retry loop an exception response is handed back as it is and a connection failure
  becomes a read exception, with that one read and no further try.
\<close>

theorem rejections_are_not_retried:
  fixes REGISTERS :: "string \<Rightarrow> 'v RegisterDefinition option" and self :: "'v AsyncHuaweiSolar"
  defines "R names sl \<equiv> wire_read self (start_register (resolved REGISTERS names))
                           (total_length (resolved REGISTERS names)) sl"
  assumes "accepted REGISTERS names" and "connected cl (w @ [Acquire])"
  shows "(reply cl (w @ [Acquire, R names sl]) = Reply (ExceptionResponse code) \<longrightarrow>
            get_multiple REGISTERS cl self names sl w
              = (Inl (ReadException (ErrorResponse (start_register (resolved REGISTERS names))
                        (total_length (resolved REGISTERS names)) code)),
                 w @ [Acquire, R names sl, Sleep (cooldown_time self), Release]))
       \<and> (reply cl (w @ [Acquire, R names sl]) = ModbusConnectionException \<longrightarrow>
            get_multiple REGISTERS cl self names sl w
              = (Inl (ReadException CouldNotRead), w @ [Acquire, R names sl, Release]))
       \<and> (connected cl h \<and> reply cl (h @ [wire_read self reg len sl]) = Reply resp \<longrightarrow>
            on_exception DEFAULT_WAIT 5 (backoff_giveup reg) (do_read cl self reg len sl) tries h
              = (Inr resp, h @ [wire_read self reg len sl]))
       \<and> (connected cl h \<and> reply cl (h @ [wire_read self reg len sl]) = ModbusConnectionException \<longrightarrow>
            on_exception DEFAULT_WAIT 5 (backoff_giveup reg) (do_read cl self reg len sl) tries h
              = (Inl (ReadException CouldNotRead), h @ [wire_read self reg len sl]))"
proof (intro conjI impI)
  assume "reply cl (w @ [Acquire, R names sl]) = Reply (ExceptionResponse code)"
  then have "read_registers cl self (start_register (resolved REGISTERS names))
        (total_length (resolved REGISTERS names)) sl w
      = (Inr (ExceptionResponse code), w @ [Acquire, R names sl, Sleep (cooldown_time self), Release])"
    unfolding R_def using assms(3) by (rule read_registers_reply [rotated])
  from get_multiple_unfold [OF assms(2) this]
  show "get_multiple REGISTERS cl self names sl w
      = (Inl (ReadException (ErrorResponse (start_register (resolved REGISTERS names))
                (total_length (resolved REGISTERS names)) code)),
         w @ [Acquire, R names sl, Sleep (cooldown_time self), Release])"
    by simp
next
  assume "reply cl (w @ [Acquire, R names sl]) = ModbusConnectionException"
  then have "read_registers cl self (start_register (resolved REGISTERS names))
        (total_length (resolved REGISTERS names)) sl w
      = (Inl (ReadException CouldNotRead), w @ [Acquire, R names sl, Release])"
    unfolding R_def using assms(3) by (rule read_registers_connection_lost [rotated])
  from get_multiple_unfold [OF assms(2) this]
  show "get_multiple REGISTERS cl self names sl w
      = (Inl (ReadException CouldNotRead), w @ [Acquire, R names sl, Release])"
    by simp
next
  assume "connected cl h \<and> reply cl (h @ [wire_read self reg len sl]) = Reply resp"
  then show "on_exception DEFAULT_WAIT 5 (backoff_giveup reg) (do_read cl self reg len sl) tries h
              = (Inr resp, h @ [wire_read self reg len sl])"
    by (simp add: on_exception_reply)
next
  assume "connected cl h \<and> reply cl (h @ [wire_read self reg len sl]) = ModbusConnectionException"
  then show "on_exception DEFAULT_WAIT 5 (backoff_giveup reg) (do_read cl self reg len sl) tries h
              = (Inl (ReadException CouldNotRead), h @ [wire_read self reg len sl])"
    by (simp add: on_exception_connection_lost)
qed

text \<open>An exception response and a connection failure, on the test bench.\<close>

theorem rejections_are_not_retried_witness:
  "get_multiple REGISTERS0 (client_fixed (Reply (ExceptionResponse 2))) session0 [''A'', ''B''] None []
     = (Inl (ReadException (ErrorResponse 0 3 2)),
        [Acquire, ReadHoldingRegisters 0 3 0 5, Sleep (1 / 100), Release])
   \<and> get_multiple REGISTERS0 (client_fixed ModbusConnectionException) session0 [''A'', ''B''] None []
     = (Inl (ReadException CouldNotRead), [Acquire, ReadHoldingRegisters 0 3 0 5, Release])"
proof -
  have a: "accepted REGISTERS0 [''A'', ''B'']" by code_simp
  have c: "\<And>out. connected (client_fixed out) ([] @ [Acquire])" by (simp add: client_fixed_def)
  have r: "\<And>out h. reply (client_fixed out) h = out" by (simp add: client_fixed_def)
  have v: "wire_read session0 (start_register (resolved REGISTERS0 [''A'', ''B'']))
             (total_length (resolved REGISTERS0 [''A'', ''B''])) None = ReadHoldingRegisters 0 3 0 5"
    "wire_read session0 0 3 None = ReadHoldingRegisters 0 3 0 5"
    "start_register (resolved REGISTERS0 [''A'', ''B'']) = 0"
    "total_length (resolved REGISTERS0 [''A'', ''B'']) = 3"
    "cooldown_time session0 = 1 / 100"
    by (simp_all add: wire_read_def start_register_def total_length_def resolved_def
        REGISTERS0_def reg_def_def session0_def slave_or_def DEFAULT_SLAVE_def
        DEFAULT_TIMEOUT_def DEFAULT_COOLDOWN_TIME_def)
  from rejections_are_not_retried [OF a c [of "Reply (ExceptionResponse 2)"],
        where sl = None and code = 2 and self = session0
          and h = "[Acquire]" and reg = 0 and len = 3 and tries = 0
          and resp = "ExceptionResponse 2"]
    rejections_are_not_retried [OF a c [of ModbusConnectionException],
        where sl = None and code = 2 and self = session0
          and h = "[Acquire]" and reg = 0 and len = 3 and tries = 0
          and resp = "ExceptionResponse 2"]
  show ?thesis by (simp add: r v)
qed

text \<open>
  C7. For a request that passes the checks, every wire read that \<open>get_multiple\<close> issues
  starts at the register of the first resolved definition and asks for
  \<open>last.register + last.length - first.register\<close> words; there are at most 5 of them (the
  retries), and exactly one when the client is connected and the first read does not time
  out.
\<close>

theorem one_read_covers_the_range:
  fixes REGISTERS :: "string \<Rightarrow> 'v RegisterDefinition option" and self :: "'v AsyncHuaweiSolar"
  defines "regs names \<equiv> resolved REGISTERS names"
  defines "R names sl \<equiv>
    ReadHoldingRegisters (register (regs names ! 0))
      (register (last (regs names)) + reg_length (last (regs names)) - register (regs names ! 0))
      (slave_or sl (slave self)) (timeout self)"
  assumes "accepted REGISTERS names"
  shows "(\<exists>k\<le>5. wire_reads (drop (length w) (snd (get_multiple REGISTERS cl self names sl w)))
                  = replicate k (R names sl))
       \<and> (connected cl (w @ [Acquire]) \<and> reply cl (w @ [Acquire, R names sl]) \<noteq> TimeoutError \<longrightarrow>
            wire_reads (drop (length w) (snd (get_multiple REGISTERS cl self names sl w)))
              = [R names sl])"
proof -
  let ?a = "start_register (resolved REGISTERS names)"
  let ?n = "total_length (resolved REGISTERS names)"
  have R: "R names sl = wire_read self ?a ?n sl"
    by (simp add: R_def regs_def wire_read_def start_register_def total_length_def)
  have tr: "snd (get_multiple REGISTERS cl self names sl w) = snd (read_registers cl self ?a ?n sl w)"
    using assms(3) by (simp add: get_multiple_trace)
  have one: "wire_reads (drop (length w) (snd (read_registers cl self ?a ?n sl w))) = [R names sl]"
    if c: "connected cl (w @ [Acquire])" and o: "reply cl (w @ [Acquire, R names sl]) \<noteq> TimeoutError"
  proof (cases "reply cl (w @ [Acquire, R names sl])")
    case (Reply resp)
    then show ?thesis
      using c by (simp add: R read_registers_reply wire_reads_def)
  next
    case ModbusConnectionException
    then show ?thesis
      using c by (simp add: R read_registers_connection_lost wire_reads_def)
  next
    case TimeoutError
    with o show ?thesis by simp
  qed
  show ?thesis
    unfolding tr using wire_reads_new_events [of w cl self ?a ?n sl] one by (simp add: R)
qed

text \<open>The scenario of the specification: \<open>A\<close> and \<open>B\<close> give one read of 3 words from
  register 0.\<close>

theorem one_read_covers_the_range_witness:
  "accepted REGISTERS0 [''A'', ''B'']
   \<and> wire_reads (drop (length ([]::trace))
        (snd (get_multiple REGISTERS0 (client_words [1, 2, 3]) session0 [''A'', ''B''] None [])))
     = [ReadHoldingRegisters 0 3 0 5]"
proof -
  have a: "accepted REGISTERS0 [''A'', ''B'']" by code_simp
  have v: "resolved REGISTERS0 [''A'', ''B''] = [reg_def 0 1 (PlainUnit ''V''), reg_def 1 2 NoUnit]"
    by (simp add: resolved_def REGISTERS0_def)
  from one_read_covers_the_range [OF a, of "[]" "client_words [1, 2, 3]" session0 None] a
  show ?thesis
    by (simp add: v client_words_def reg_def_def session0_def slave_or_def DEFAULT_SLAVE_def
        DEFAULT_TIMEOUT_def)
qed

text \<open>
  C8. For a request that passes the checks and whose exchange returns the words of a
  response, \<open>get_multiple\<close> returns what the walk of the specification returns on the
  decoder made from these words: one result per name, the result at position \<open>i\<close> being the
  one of the definition of name \<open>i\<close> (its unit is the one that this definition resolves to),
  decoded after a skip of \<open>(def[i].register - def[i-1].register - def[i-1].length) * 2\<close>
  bytes, and of nothing for the first.
\<close>

theorem results_in_request_order:
  fixes REGISTERS :: "string \<Rightarrow> 'v RegisterDefinition option" and self :: "'v AsyncHuaweiSolar"
  defines "regs names \<equiv> resolved REGISTERS names"
  assumes "accepted REGISTERS names"
    and "read_registers cl self (start_register (regs names)) (total_length (regs names)) sl w
           = (Inr (ReadHoldingRegistersResponse words), w')"
  shows "get_multiple REGISTERS cl self names sl w
           = (Inr (spec_walk self None (regs names) (fromRegisters words)), w')
       \<and> length (spec_walk self None (regs names) (fromRegisters words)) = length names
       \<and> map result_unit (spec_walk self None (regs names) (fromRegisters words))
           = map (\<lambda>d. case reg_unit d of PlainUnit u \<Rightarrow> Some u | _ \<Rightarrow> None) (regs names)"
proof -
  have "get_multiple REGISTERS cl self names sl w
           = (Inr (spec_walk self None (regs names) (fromRegisters words)), w')"
    using get_multiple_unfold [OF assms(2) assms(3) [unfolded regs_def]]
    by (simp add: regs_def)
  moreover have "length (spec_walk self None (regs names) (fromRegisters words)) = length names"
    by (simp add: length_spec_walk regs_def resolved_def)
  ultimately show ?thesis by (simp add: units_spec_walk)
qed

text \<open>\<open>A\<close> and \<open>B\<close> decoded from the words 1, 2, 3.\<close>

theorem results_in_request_order_witness:
  "accepted REGISTERS0 [''A'', ''B'']
   \<and> get_multiple REGISTERS0 (client_words [1, 2, 3]) session0 [''A'', ''B''] None []
       = (Inr [Result [0, 1] (Some ''V''), Result [0, 2, 0, 3] None],
          [Acquire, ReadHoldingRegisters 0 3 0 5, Sleep (1 / 100), Release])
   \<and> spec_walk session0 None (resolved REGISTERS0 [''A'', ''B'']) (fromRegisters [1, 2, 3])
       = [Result [0, 1] (Some ''V''), Result [0, 2, 0, 3] None]"
proof -
  have a: "accepted REGISTERS0 [''A'', ''B'']" by code_simp
  have rr: "read_registers (client_words [1, 2, 3]) session0
              (start_register (resolved REGISTERS0 [''A'', ''B'']))
              (total_length (resolved REGISTERS0 [''A'', ''B''])) None []
            = (Inr (ReadHoldingRegistersResponse [1, 2, 3]),
               [Acquire, ReadHoldingRegisters 0 3 0 5, Sleep (1 / 100), Release])"
    by code_simp
  have sw: "spec_walk session0 None (resolved REGISTERS0 [''A'', ''B'']) (fromRegisters [1, 2, 3])
       = [Result [0, 1] (Some ''V''), Result [0, 2, 0, 3] None]"
    by code_simp
  from results_in_request_order [OF a rr] a sw show ?thesis by simp
qed

text \<open>
  C10. When the caller passes no slave or the slave 0, every wire read that \<open>get_multiple\<close>
  or \<open>get\<close> issues carries the slave of the session.
\<close>

theorem slave_zero_falls_back:
  assumes "sl = None \<or> sl = Some 0"
  shows "list_all (read_unit_is (slave self))
           (drop (length w) (snd (get_multiple REGISTERS cl self names sl w)))
       \<and> list_all (read_unit_is (slave self))
           (drop (length w) (snd (get REGISTERS cl self name sl w)))"
proof -
  have "list_all (read_unit_is (slave self))
           (drop (length w) (snd (get_multiple REGISTERS cl self ns sl w)))" for ns
    by (simp add: get_multiple_trace new_events_unit [OF assms])
  then show ?thesis by (simp add: get_trace)
qed

text \<open>On a session with slave 7, a call with the explicit slave 0 reads from unit 7.\<close>

theorem slave_zero_falls_back_witness:
  "snd (get REGISTERS0 (client_words [1]) session7 ''A'' (Some 0) [])
     = [Acquire, ReadHoldingRegisters 0 1 7 5, Sleep (1 / 100), Release]
   \<and> list_all (read_unit_is (slave session7))
       (drop (length ([]::trace)) (snd (get REGISTERS0 (client_words [1]) session7 ''A'' (Some 0) [])))"
proof -
  have e: "snd (get REGISTERS0 (client_words [1]) session7 ''A'' (Some 0) [])
     = [Acquire, ReadHoldingRegisters 0 1 7 5, Sleep (1 / 100), Release]"
    by code_simp
  have h: "Some (0::int) = None \<or> Some (0::int) = Some 0" by simp
  from slave_zero_falls_back [OF h, of session7 "[]" REGISTERS0 "client_words [1]" "[]" "''A''"] e
  show ?thesis by simp
qed

end
